theory Spec2Isabelle
  imports Main "HOL-Library.Word"
begin

section \<open>Sidetables of the Turboshaft compiler (sidetable.h)\<close>

text \<open>
  The header defines two generic containers, \<open>detail::GrowingSidetable<T, Key>\<close> and
  \<open>detail::FixedSidetable<T, Key>\<close>, and four public classes derived from them
  (block-keyed and node-keyed, growing and fixed). Every member function is embedded
  below as a HOL function on an explicit table state. A \<open>DCHECK\<close> is a fatal
  assertion in a debug build and no code at all in a release build, so every function
  that contains one takes the build kind \<open>dbg\<close> as its first argument and returns
  a sum whose left side is the failure.
\<close>

subsection \<open>Machine integers, keys, failures\<close>

text \<open>
  \<open>size_t\<close> is taken at its width on the 64-bit targets; the identifier of a key is the
  32-bit quantity that \<open>OpIndex::id()\<close> and \<open>BlockIndex::id()\<close> return. Element
  counts of a vector are natural numbers; the arithmetic the header itself performs
  (\<open>NextSize\<close>) is done on \<open>size_t\<close> words, where \<open>+\<close> wraps.
\<close>

type_synonym size_t = "64 word"
type_synonym uint32_t = "32 word"

text \<open>
  Modelled from the spec: the key classes \<open>OpIndex\<close> and \<open>BlockIndex\<close> are declared
  in headers outside this file. The spec describes a key as a
  dense, non-negative integer handle with an explicit validity predicate; the
  sidetable reads a key only through \<open>id()\<close> and \<open>valid()\<close>, which are the two
  fields here.
\<close>

record Key =
  key_id :: uint32_t
  key_valid :: bool

type_synonym OpIndex = Key
type_synonym BlockIndex = Key

datatype failure =
  DCheckFailed          \<comment> \<open>a \<open>DCHECK\<close> fired (debug builds only)\<close>
| UndefinedBehaviour    \<comment> \<open>an element access outside the vector\<close>

text \<open>The value \<open>T{}\<close> of a 32-bit integer type is zero.\<close>

instantiation word :: (len) default
begin

definition default_word :: "'a word" where
  "default_word = 0"

instance ..

end

subsection \<open>The zone vector\<close>

text \<open>
  Modelled from the spec: \<open>ZoneVector<T>\<close> and \<open>Zone\<close> come from headers outside this
  file. The spec describes the storage as an ordered, zero-based
  sequence of values allocated from an external arena; growing it default-constructs
  the added slots, and the arena may grant more capacity than was asked for. The
  policy of the arena is the field \<open>grant\<close> (old capacity and requested size to offered
  capacity); a reallocation never yields less than the requested size.
\<close>

record Zone =
  grant :: "nat \<Rightarrow> nat \<Rightarrow> nat"

record 'a ZoneVector =
  zone :: Zone
  elems :: "'a list"
  cap :: nat

definition ZoneVector_new :: "Zone \<Rightarrow> 'a ZoneVector" where
  "ZoneVector_new z = \<lparr>zone = z, elems = [], cap = 0\<rparr>"

definition ZoneVector_sized :: "nat \<Rightarrow> Zone \<Rightarrow> 'a::default ZoneVector" where
  "ZoneVector_sized n z = \<lparr>zone = z, elems = replicate n default, cap = n\<rparr>"

definition ZoneVector_filled :: "nat \<Rightarrow> 'a \<Rightarrow> Zone \<Rightarrow> 'a ZoneVector" where
  "ZoneVector_filled n x z = \<lparr>zone = z, elems = replicate n x, cap = n\<rparr>"

definition vsize :: "'a ZoneVector \<Rightarrow> nat" where
  "vsize v = length (elems v)"

definition vcapacity :: "'a ZoneVector \<Rightarrow> nat" where
  "vcapacity v = cap v"

definition vempty :: "'a ZoneVector \<Rightarrow> bool" where
  "vempty v = (elems v = [])"

text \<open>
  Modelled from the spec: \<open>resize\<close> and \<open>capacity\<close> of the vector. \<open>granted v n\<close> is
  the capacity once the vector holds \<open>n\<close> elements: the present one where it suffices,
  otherwise what the arena grants, which is no less than \<open>n\<close>. Shrinking drops the
  trailing elements and keeps the capacity; growing appends default-constructed
  elements.
\<close>

definition granted :: "'a ZoneVector \<Rightarrow> nat \<Rightarrow> nat" where
  "granted v n = (if n \<le> cap v then cap v else max n (grant (zone v) (cap v) n))"

definition vresize :: "nat \<Rightarrow> 'a::default ZoneVector \<Rightarrow> 'a ZoneVector" where
  "vresize n v =
     (if n \<le> length (elems v) then v\<lparr>elems := take n (elems v)\<rparr>
      else v\<lparr>elems := elems v @ replicate (n - length (elems v)) default,
             cap := granted v n\<rparr>)"

text \<open>
  Modelled from the spec: element access of the vector. \<open>table_[i]\<close> yields a reference
  to slot \<open>i\<close>; a reference is modelled by the position of its slot, and reading and
  writing through it are \<open>vget\<close> and \<open>vset\<close>. Outside the vector the access is
  undefined. \<open>vfill\<close> is \<open>std::fill\<close> over the whole vector.
\<close>

definition vat :: "'a ZoneVector \<Rightarrow> nat \<Rightarrow> failure + nat" where
  "vat v i = (if i < length (elems v) then Inr i else Inl UndefinedBehaviour)"

definition vget :: "'a ZoneVector \<Rightarrow> nat \<Rightarrow> 'a" where
  "vget v r = elems v ! r"

definition vset :: "'a ZoneVector \<Rightarrow> nat \<Rightarrow> 'a \<Rightarrow> 'a ZoneVector" where
  "vset v r x = v\<lparr>elems := (elems v)[r := x]\<rparr>"

definition vfill :: "'a \<Rightarrow> 'a ZoneVector \<Rightarrow> 'a ZoneVector" where
  "vfill x v = v\<lparr>elems := map (\<lambda>_. x) (elems v)\<rparr>"

subsection \<open>detail::GrowingSidetable\<close>

record 'a GrowingSidetable =
  table :: "'a ZoneVector"

definition GrowingSidetable_new :: "Zone \<Rightarrow> 'a GrowingSidetable" where
  "GrowingSidetable_new z = \<lparr>table = ZoneVector_new z\<rparr>"

definition GrowingSidetable_sized :: "nat \<Rightarrow> 'a \<Rightarrow> Zone \<Rightarrow> 'a GrowingSidetable" where
  "GrowingSidetable_sized n initial_value z = \<lparr>table = ZoneVector_filled n initial_value z\<rparr>"

definition NextSize ::
  "bool \<Rightarrow> ('a, 'm) GrowingSidetable_scheme \<Rightarrow> size_t \<Rightarrow> failure + size_t" where
  "NextSize dbg t out_of_bounds_index =
     (if dbg \<and> \<not> vsize (table t) \<le> unat out_of_bounds_index then Inl DCheckFailed
      else Inr (out_of_bounds_index + out_of_bounds_index div 2 + 32))"

text \<open>The mutable accessor, lines 37 to 47.\<close>

definition Growing_index ::
  "bool \<Rightarrow> ('a::default, 'm) GrowingSidetable_scheme \<Rightarrow> Key \<Rightarrow>
   failure + (('a, 'm) GrowingSidetable_scheme \<times> nat)" where
  "Growing_index dbg t index =
     (if dbg \<and> \<not> key_valid index then Inl DCheckFailed
      else
        let i = (ucast (key_id index) :: size_t) in
        if vsize (table t) \<le> unat i then
          (case NextSize dbg t i of
             Inl e \<Rightarrow> Inl e
           | Inr n \<Rightarrow>
               let t1 = t\<lparr>table := vresize (unat n) (table t)\<rparr>;
                   t2 = t1\<lparr>table := vresize (vcapacity (table t1)) (table t1)\<rparr>
               in (case vat (table t2) (unat i) of
                     Inl e \<Rightarrow> Inl e
                   | Inr r \<Rightarrow> Inr (t2, r)))
        else
          (case vat (table t) (unat i) of
             Inl e \<Rightarrow> Inl e
           | Inr r \<Rightarrow> Inr (t, r)))"

text \<open>
  The \<open>const\<close> accessor, lines 49 to 59. The field \<open>table_\<close> is \<open>mutable\<close>, so this
  overload changes the table as well and is translated on its own.
\<close>

definition Growing_index_const ::
  "bool \<Rightarrow> ('a::default, 'm) GrowingSidetable_scheme \<Rightarrow> Key \<Rightarrow>
   failure + (('a, 'm) GrowingSidetable_scheme \<times> nat)" where
  "Growing_index_const dbg t index =
     (if dbg \<and> \<not> key_valid index then Inl DCheckFailed
      else
        let i = (ucast (key_id index) :: size_t) in
        if vsize (table t) \<le> unat i then
          (case NextSize dbg t i of
             Inl e \<Rightarrow> Inl e
           | Inr n \<Rightarrow>
               let t1 = t\<lparr>table := vresize (unat n) (table t)\<rparr>;
                   t2 = t1\<lparr>table := vresize (vcapacity (table t1)) (table t1)\<rparr>
               in (case vat (table t2) (unat i) of
                     Inl e \<Rightarrow> Inl e
                   | Inr r \<Rightarrow> Inr (t2, r)))
        else
          (case vat (table t) (unat i) of
             Inl e \<Rightarrow> Inl e
           | Inr r \<Rightarrow> Inr (t, r)))"

definition Growing_Reset ::
  "('a::default, 'm) GrowingSidetable_scheme \<Rightarrow> ('a, 'm) GrowingSidetable_scheme" where
  "Growing_Reset t = t\<lparr>table := vfill default (table t)\<rparr>"

definition Growing_empty :: "('a, 'm) GrowingSidetable_scheme \<Rightarrow> bool" where
  "Growing_empty t = vempty (table t)"

text \<open>
  What a caller does with the reference: \<open>x = t[k]\<close> on a table that is only read
  (the \<open>const\<close> overload), and \<open>t[k] = x\<close>.
\<close>

definition Growing_read ::
  "bool \<Rightarrow> ('a::default, 'm) GrowingSidetable_scheme \<Rightarrow> Key \<Rightarrow>
   failure + (('a, 'm) GrowingSidetable_scheme \<times> 'a)" where
  "Growing_read dbg t k =
     (case Growing_index_const dbg t k of
        Inl e \<Rightarrow> Inl e
      | Inr (t', r) \<Rightarrow> Inr (t', vget (table t') r))"

definition Growing_write ::
  "bool \<Rightarrow> ('a::default, 'm) GrowingSidetable_scheme \<Rightarrow> Key \<Rightarrow> 'a \<Rightarrow>
   failure + ('a, 'm) GrowingSidetable_scheme" where
  "Growing_write dbg t k x =
     (case Growing_index dbg t k of
        Inl e \<Rightarrow> Inl e
      | Inr (t', r) \<Rightarrow> Inr (t'\<lparr>table := vset (table t') r x\<rparr>))"

subsection \<open>detail::FixedSidetable\<close>

record 'a FixedSidetable =
  fixed_table :: "'a ZoneVector"

definition FixedSidetable_new :: "nat \<Rightarrow> Zone \<Rightarrow> 'a::default FixedSidetable" where
  "FixedSidetable_new n z = \<lparr>fixed_table = ZoneVector_sized n z\<rparr>"

definition FixedSidetable_filled :: "nat \<Rightarrow> 'a \<Rightarrow> Zone \<Rightarrow> 'a FixedSidetable" where
  "FixedSidetable_filled n default_value z = \<lparr>fixed_table = ZoneVector_filled n default_value z\<rparr>"

definition Fixed_index ::
  "bool \<Rightarrow> ('a, 'm) FixedSidetable_scheme \<Rightarrow> Key \<Rightarrow> failure + nat" where
  "Fixed_index dbg t op =
     (if dbg \<and> \<not> unat (key_id op) < vsize (fixed_table t) then Inl DCheckFailed
      else vat (fixed_table t) (unat (key_id op)))"

definition Fixed_index_const ::
  "bool \<Rightarrow> ('a, 'm) FixedSidetable_scheme \<Rightarrow> Key \<Rightarrow> failure + nat" where
  "Fixed_index_const dbg t op =
     (if dbg \<and> \<not> unat (key_id op) < vsize (fixed_table t) then Inl DCheckFailed
      else vat (fixed_table t) (unat (key_id op)))"

definition Fixed_read ::
  "bool \<Rightarrow> ('a, 'm) FixedSidetable_scheme \<Rightarrow> Key \<Rightarrow> failure + 'a" where
  "Fixed_read dbg t k =
     (case Fixed_index_const dbg t k of
        Inl e \<Rightarrow> Inl e
      | Inr r \<Rightarrow> Inr (vget (fixed_table t) r))"

definition Fixed_write ::
  "bool \<Rightarrow> ('a, 'm) FixedSidetable_scheme \<Rightarrow> Key \<Rightarrow> 'a \<Rightarrow>
   failure + ('a, 'm) FixedSidetable_scheme" where
  "Fixed_write dbg t k x =
     (case Fixed_index dbg t k of
        Inl e \<Rightarrow> Inl e
      | Inr r \<Rightarrow> Inr (t\<lparr>fixed_table := vset (fixed_table t) r x\<rparr>))"

subsection \<open>The public classes\<close>

text \<open>
  The block-keyed classes derive from the generic containers, forward their
  constructors and declare nothing else: their accessors are the inherited ones.
\<close>

type_synonym 'a GrowingBlockSidetable = "'a GrowingSidetable"
type_synonym 'a FixedBlockSidetable = "'a FixedSidetable"

definition GrowingBlockSidetable_new :: "Zone \<Rightarrow> 'a GrowingBlockSidetable" where
  "GrowingBlockSidetable_new z = GrowingSidetable_new z"

definition GrowingBlockSidetable_sized :: "nat \<Rightarrow> 'a \<Rightarrow> Zone \<Rightarrow> 'a GrowingBlockSidetable" where
  "GrowingBlockSidetable_sized n initial_value z = GrowingSidetable_sized n initial_value z"

definition FixedBlockSidetable_new :: "nat \<Rightarrow> Zone \<Rightarrow> 'a::default FixedBlockSidetable" where
  "FixedBlockSidetable_new n z = FixedSidetable_new n z"

definition FixedBlockSidetable_filled :: "nat \<Rightarrow> 'a \<Rightarrow> Zone \<Rightarrow> 'a FixedBlockSidetable" where
  "FixedBlockSidetable_filled n initial_value z = FixedSidetable_filled n initial_value z"

text \<open>
  The node-keyed classes add the field \<open>graph_\<close> and shadow both accessors with a
  \<open>DCHECK\<close> in front of the inherited one. The field exists in debug builds only; the
  model keeps it in every build and reads it under \<open>dbg\<close> only. The graph type and the
  function \<open>OpIndexBelongsToTableGraph\<close> are declared but not defined in the header:
  the graph is a type parameter and the function the argument \<open>belongs\<close>.
\<close>

record ('a, 'g) GrowingOpIndexSidetable = "'a GrowingSidetable" +
  graph :: 'g

record ('a, 'g) FixedOpIndexSidetable = "'a FixedSidetable" +
  fixed_graph :: 'g

definition GrowingOpIndexSidetable_new :: "Zone \<Rightarrow> 'g \<Rightarrow> ('a, 'g) GrowingOpIndexSidetable" where
  "GrowingOpIndexSidetable_new z g = \<lparr>table = table (GrowingSidetable_new z), graph = g\<rparr>"

definition GrowingOpIndexSidetable_sized ::
  "nat \<Rightarrow> 'a \<Rightarrow> Zone \<Rightarrow> 'g \<Rightarrow> ('a, 'g) GrowingOpIndexSidetable" where
  "GrowingOpIndexSidetable_sized n initial_value z g =
     \<lparr>table = table (GrowingSidetable_sized n initial_value z), graph = g\<rparr>"

definition GrowingOpIndex_index ::
  "bool \<Rightarrow> ('g \<Rightarrow> OpIndex \<Rightarrow> bool) \<Rightarrow> ('a::default, 'g) GrowingOpIndexSidetable \<Rightarrow> OpIndex \<Rightarrow>
   failure + (('a, 'g) GrowingOpIndexSidetable \<times> nat)" where
  "GrowingOpIndex_index dbg belongs t index =
     (if dbg \<and> \<not> belongs (graph t) index then Inl DCheckFailed
      else Growing_index dbg t index)"

definition GrowingOpIndex_index_const ::
  "bool \<Rightarrow> ('g \<Rightarrow> OpIndex \<Rightarrow> bool) \<Rightarrow> ('a::default, 'g) GrowingOpIndexSidetable \<Rightarrow> OpIndex \<Rightarrow>
   failure + (('a, 'g) GrowingOpIndexSidetable \<times> nat)" where
  "GrowingOpIndex_index_const dbg belongs t index =
     (if dbg \<and> \<not> belongs (graph t) index then Inl DCheckFailed
      else Growing_index_const dbg t index)"

definition GrowingOpIndex_SwapData ::
  "('a, 'g) GrowingOpIndexSidetable \<Rightarrow> ('a, 'g) GrowingOpIndexSidetable \<Rightarrow>
   ('a, 'g) GrowingOpIndexSidetable \<times> ('a, 'g) GrowingOpIndexSidetable" where
  "GrowingOpIndex_SwapData t other = (t\<lparr>table := table other\<rparr>, other\<lparr>table := table t\<rparr>)"

definition GrowingOpIndex_read ::
  "bool \<Rightarrow> ('g \<Rightarrow> OpIndex \<Rightarrow> bool) \<Rightarrow> ('a::default, 'g) GrowingOpIndexSidetable \<Rightarrow> OpIndex \<Rightarrow>
   failure + (('a, 'g) GrowingOpIndexSidetable \<times> 'a)" where
  "GrowingOpIndex_read dbg belongs t k =
     (case GrowingOpIndex_index_const dbg belongs t k of
        Inl e \<Rightarrow> Inl e
      | Inr (t', r) \<Rightarrow> Inr (t', vget (table t') r))"

definition FixedOpIndexSidetable_new ::
  "nat \<Rightarrow> Zone \<Rightarrow> 'g \<Rightarrow> ('a::default, 'g) FixedOpIndexSidetable" where
  "FixedOpIndexSidetable_new n z g =
     \<lparr>fixed_table = fixed_table (FixedSidetable_new n z), fixed_graph = g\<rparr>"

definition FixedOpIndexSidetable_filled ::
  "nat \<Rightarrow> 'a \<Rightarrow> Zone \<Rightarrow> 'g \<Rightarrow> ('a, 'g) FixedOpIndexSidetable" where
  "FixedOpIndexSidetable_filled n default_value z g =
     \<lparr>fixed_table = fixed_table (FixedSidetable_filled n default_value z), fixed_graph = g\<rparr>"

definition FixedOpIndex_index ::
  "bool \<Rightarrow> ('g \<Rightarrow> OpIndex \<Rightarrow> bool) \<Rightarrow> ('a, 'g) FixedOpIndexSidetable \<Rightarrow> OpIndex \<Rightarrow> failure + nat" where
  "FixedOpIndex_index dbg belongs t index =
     (if dbg \<and> \<not> belongs (fixed_graph t) index then Inl DCheckFailed
      else Fixed_index dbg t index)"

definition FixedOpIndex_index_const ::
  "bool \<Rightarrow> ('g \<Rightarrow> OpIndex \<Rightarrow> bool) \<Rightarrow> ('a, 'g) FixedOpIndexSidetable \<Rightarrow> OpIndex \<Rightarrow> failure + nat" where
  "FixedOpIndex_index_const dbg belongs t index =
     (if dbg \<and> \<not> belongs (fixed_graph t) index then Inl DCheckFailed
      else Fixed_index_const dbg t index)"

definition FixedOpIndex_SwapData ::
  "('a, 'g) FixedOpIndexSidetable \<Rightarrow> ('a, 'g) FixedOpIndexSidetable \<Rightarrow>
   ('a, 'g) FixedOpIndexSidetable \<times> ('a, 'g) FixedOpIndexSidetable" where
  "FixedOpIndex_SwapData t other =
     (t\<lparr>fixed_table := fixed_table other\<rparr>, other\<lparr>fixed_table := fixed_table t\<rparr>)"

definition FixedOpIndex_read ::
  "bool \<Rightarrow> ('g \<Rightarrow> OpIndex \<Rightarrow> bool) \<Rightarrow> ('a, 'g) FixedOpIndexSidetable \<Rightarrow> OpIndex \<Rightarrow> failure + 'a" where
  "FixedOpIndex_read dbg belongs t k =
     (case FixedOpIndex_index_const dbg belongs t k of
        Inl e \<Rightarrow> Inl e
      | Inr r \<Rightarrow> Inr (vget (fixed_table t) r))"

subsection \<open>Sequences of calls on a growing table\<close>

text \<open>
  A phase uses a growing table through reads, writes and resets. A sequence of such
  calls runs from left to right and stops at the first failure.
\<close>

datatype 'a call = Read Key | Write Key 'a | ResetCall

fun step ::
  "bool \<Rightarrow> ('a::default, 'm) GrowingSidetable_scheme \<Rightarrow> 'a call \<Rightarrow>
   failure + ('a, 'm) GrowingSidetable_scheme" where
  "step dbg t (Read k) =
     (case Growing_read dbg t k of Inl e \<Rightarrow> Inl e | Inr (t', x) \<Rightarrow> Inr t')"
| "step dbg t (Write k x) = Growing_write dbg t k x"
| "step dbg t ResetCall = Inr (Growing_Reset t)"

fun run ::
  "bool \<Rightarrow> ('a::default, 'm) GrowingSidetable_scheme \<Rightarrow> 'a call list \<Rightarrow>
   failure + ('a, 'm) GrowingSidetable_scheme" where
  "run dbg t [] = Inr t"
| "run dbg t (c # cs) =
     (case step dbg t c of Inl e \<Rightarrow> Inl e | Inr t' \<Rightarrow> run dbg t' cs)"

fun call_valid :: "'a call \<Rightarrow> bool" where
  "call_valid (Read k) = key_valid k"
| "call_valid (Write k x) = key_valid k"
| "call_valid ResetCall = True"

fun is_access :: "'a call \<Rightarrow> bool" where
  "is_access (Read k) = True"
| "is_access (Write k x) = True"
| "is_access ResetCall = False"

text \<open>The identifiers a sequence of calls indexes the table with.\<close>

fun indexed :: "'a call list \<Rightarrow> nat list" where
  "indexed [] = []"
| "indexed (Read k # cs) = unat (key_id k) # indexed cs"
| "indexed (Write k x # cs) = unat (key_id k) # indexed cs"
| "indexed (ResetCall # cs) = indexed cs"

text \<open>
  The words of the claim on growth: the last value a sequence of accesses wrote to
  slot \<open>i\<close>, if it wrote one.
\<close>

fun last_written :: "'a call list \<Rightarrow> nat \<Rightarrow> 'a option" where
  "last_written [] i = None"
| "last_written (Read k # cs) i = last_written cs i"
| "last_written (Write k x # cs) i =
     (case last_written cs i of
        Some y \<Rightarrow> Some y
      | None \<Rightarrow> if unat (key_id k) = i then Some x else None)"
| "last_written (ResetCall # cs) i = last_written cs i"

text \<open>
  Whether a call takes the growing branch of the accessor on table \<open>t\<close>, and whether
  some call of a sequence does so when the sequence runs from \<open>t\<close>.
\<close>

fun grows :: "('a, 'm) GrowingSidetable_scheme \<Rightarrow> 'a call \<Rightarrow> bool" where
  "grows t (Read k) = (vsize (table t) \<le> unat (key_id k))"
| "grows t (Write k x) = (vsize (table t) \<le> unat (key_id k))"
| "grows t ResetCall = False"

fun grown_during ::
  "bool \<Rightarrow> ('a::default, 'm) GrowingSidetable_scheme \<Rightarrow> 'a call list \<Rightarrow> bool" where
  "grown_during dbg t [] = False"
| "grown_during dbg t (c # cs) =
     (grows t c \<or> (case step dbg t c of Inl e \<Rightarrow> False | Inr t' \<Rightarrow> grown_during dbg t' cs))"

text \<open>
  The table as the mapping it stands for (the header calls it conceptually infinite):
  the stored value inside the vector, the default value beyond it.
\<close>

definition slot :: "('a::default, 'm) GrowingSidetable_scheme \<Rightarrow> nat \<Rightarrow> 'a" where
  "slot t i = (if i < vsize (table t) then vget (table t) i else default)"

subsection \<open>Sequences of writes on a fixed table\<close>

text \<open>A sequence of writes \<open>t[k] = x\<close> runs from left to right and stops at the first failure.\<close>

fun Fixed_run ::
  "bool \<Rightarrow> ('a, 'm) FixedSidetable_scheme \<Rightarrow> (Key \<times> 'a) list \<Rightarrow>
   failure + ('a, 'm) FixedSidetable_scheme" where
  "Fixed_run dbg t [] = Inr t"
| "Fixed_run dbg t ((k, x) # ws) =
     (case Fixed_write dbg t k x of Inl e \<Rightarrow> Inl e | Inr t' \<Rightarrow> Fixed_run dbg t' ws)"

text \<open>The identifiers a sequence of writes stores to.\<close>

definition written_ids :: "(Key \<times> 'a) list \<Rightarrow> nat list" where
  "written_ids ws = map (\<lambda>(k, x). unat (key_id k)) ws"

subsection \<open>Fixtures\<close>

text \<open>An arena that offers twice the old capacity, for the examples.\<close>

definition doubling_zone :: Zone where
  "doubling_zone = \<lparr>grant = \<lambda>c n. 2 * c\<rparr>"

text \<open>Two node-keyed tables of different sizes, bound to graphs 1 and 2.\<close>

definition table_a :: "(32 word, nat) GrowingOpIndexSidetable" where
  "table_a = \<lparr>table = \<lparr>zone = doubling_zone, elems = [3, 4], cap = 2\<rparr>, graph = 1\<rparr>"

definition table_b :: "(32 word, nat) GrowingOpIndexSidetable" where
  "table_b = \<lparr>table = \<lparr>zone = doubling_zone, elems = [8], cap = 1\<rparr>, graph = 2\<rparr>"

text \<open>Two fixed node-keyed tables of different sizes, bound to graphs 1 and 2.\<close>

definition table_c :: "(32 word, nat) FixedOpIndexSidetable" where
  "table_c = \<lparr>fixed_table = \<lparr>zone = doubling_zone, elems = [5, 5, 5], cap = 3\<rparr>, fixed_graph = 1\<rparr>"

definition table_d :: "(32 word, nat) FixedOpIndexSidetable" where
  "table_d = \<lparr>fixed_table = \<lparr>zone = doubling_zone, elems = [6], cap = 1\<rparr>, fixed_graph = 2\<rparr>"

text \<open>
  Membership of a key in a graph, for the examples: graph 2 owns the even identifiers,
  every other graph the odd ones.
\<close>

definition owns :: "nat \<Rightarrow> OpIndex \<Rightarrow> bool" where
  "owns g index = (even (unat (key_id index)) = (g = 2))"

section \<open>Properties\<close>

subsection \<open>Auxiliary facts\<close>

lemma unat_id_size_t: "unat (ucast (j :: 32 word) :: 64 word) = unat j"
proof -
  have "unat j < 2 ^ 32" using unsigned_less [of j] by simp
  then have "unat j < 2 ^ 64" by simp
  then show ?thesis by (simp add: unsigned_ucast_eq take_bit_nat_eq_self)
qed

lemma NextSize_unat:
  "unat ((ucast (j :: 32 word) :: 64 word) + ucast j div 2 + 32) = unat j + unat j div 2 + 32"
proof -
  let ?i = "ucast j :: 64 word"
  have j: "unat j < 2 ^ 32" using unsigned_less [of j] by simp
  have i: "unat ?i = unat j" by (rule unat_id_size_t)
  have d: "unat (?i div 2) = unat j div 2" by (simp add: unat_div i)
  have "unat ?i + unat (?i div 2) < 2 ^ LENGTH(64)"
    using j by (simp add: i d)
  then have s1: "unat (?i + ?i div 2) = unat j + unat j div 2"
    by (simp add: unat_add_lem [THEN iffD1] i d)
  have "unat (?i + ?i div 2) + unat (32 :: 64 word) < 2 ^ LENGTH(64)"
    using j by (simp add: s1)
  then have "unat (?i + ?i div 2 + 32) = unat (?i + ?i div 2) + unat (32 :: 64 word)"
    by (rule unat_add_lem [THEN iffD1])
  then show ?thesis using s1 by simp
qed


lemma granted_ge: "n \<le> granted v n"
  by (simp add: granted_def)

lemma granted_cap: "cap v \<le> granted v n"
  by (auto simp: granted_def max_def)

lemma vresize_twice:
  assumes "length (elems v) < n"
  shows "vresize (vcapacity (vresize n v)) (vresize n v) =
           v\<lparr>elems := elems v @ replicate (granted v n - length (elems v)) default,
             cap := granted v n\<rparr>"
proof -
  let ?c = "granted v n"
  let ?v1 = "v\<lparr>elems := elems v @ replicate (n - length (elems v)) default, cap := ?c\<rparr>"
  have v1: "vresize n v = ?v1"
    using assms by (simp add: vresize_def)
  have len1: "length (elems ?v1) = n" using assms by simp
  have c: "n \<le> ?c" by (rule granted_ge)
  show ?thesis
  proof (cases "?c = n")
    case True
    then show ?thesis
      unfolding v1 vcapacity_def using assms by (simp add: vresize_def)
  next
    case False
    with c have lt: "n < ?c" by simp
    have "replicate (n - length (elems v)) (default :: 'a) @ replicate (?c - n) default =
          replicate (?c - length (elems v)) default"
      using assms lt by (simp add: replicate_add [symmetric])
    moreover have "granted ?v1 ?c = ?c"
      by (simp add: granted_def)
    ultimately show ?thesis
      unfolding v1 vcapacity_def using assms lt by (simp add: vresize_def)
  qed
qed

lemma Growing_index_below:
  assumes "dbg \<longrightarrow> key_valid k" and "unat (key_id k) < vsize (table t)"
  shows "Growing_index dbg t k = Inr (t, unat (key_id k))"
  using assms by (simp add: Growing_index_def Let_def vat_def vsize_def unat_id_size_t)

lemma Growing_index_grow:
  assumes "dbg \<longrightarrow> key_valid k" and "vsize (table t) \<le> unat (key_id k)"
  shows "Growing_index dbg t k =
     Inr (t\<lparr>table := (table t)\<lparr>elems := elems (table t) @
               replicate (granted (table t) (unat (key_id k) + unat (key_id k) div 2 + 32)
                          - vsize (table t)) default,
             cap := granted (table t) (unat (key_id k) + unat (key_id k) div 2 + 32)\<rparr>\<rparr>,
          unat (key_id k))"
proof -
  let ?i = "unat (key_id k)"
  let ?n = "?i + ?i div 2 + 32"
  let ?v = "table t"
  let ?c = "granted ?v ?n"
  let ?v2 = "?v\<lparr>elems := elems ?v @ replicate (?c - length (elems ?v)) default, cap := ?c\<rparr>"
  have lt: "length (elems ?v) < ?n" using assms(2) by (simp add: vsize_def)
  have next_size: "NextSize dbg t (ucast (key_id k)) =
      Inr (ucast (key_id k) + ucast (key_id k) div 2 + 32)"
    using assms(2) by (simp add: NextSize_def unat_id_size_t)
  have two: "vresize (vcapacity (vresize ?n ?v)) (vresize ?n ?v) = ?v2"
    using lt by (rule vresize_twice)
  have "?n \<le> ?c" by (rule granted_ge)
  then have at: "vat ?v2 ?i = Inr ?i" by (simp add: vat_def)
  show ?thesis
    unfolding Growing_index_def Let_def
    using assms
    by (simp add: next_size unat_id_size_t NextSize_unat two at vsize_def)
qed


lemma Growing_index_const_mut: "Growing_index_const dbg t k = Growing_index dbg t k"
  by (simp only: Growing_index_const_def Growing_index_def)

lemma Growing_index_effect:
  assumes "dbg \<longrightarrow> key_valid k"
  shows "\<exists>t'. Growing_index dbg t k = Inr (t', unat (key_id k)) \<and>
           unat (key_id k) < vsize (table t') \<and>
           vsize (table t) \<le> vsize (table t') \<and>
           vcapacity (table t) \<le> vcapacity (table t') \<and>
           slot t' = slot t \<and>
           (vsize (table t') = vsize (table t)) = (unat (key_id k) < vsize (table t))"
proof (cases "unat (key_id k) < vsize (table t)")
  case True
  with assms have "Growing_index dbg t k = Inr (t, unat (key_id k))"
    by (simp add: Growing_index_below)
  with True show ?thesis by simp
next
  case False
  let ?i = "unat (key_id k)"
  let ?c = "granted (table t) (?i + ?i div 2 + 32)"
  let ?t' = "t\<lparr>table := (table t)\<lparr>elems := elems (table t) @
               replicate (?c - vsize (table t)) default, cap := ?c\<rparr>\<rparr>"
  from False have ge: "vsize (table t) \<le> ?i" by simp
  with assms have eq: "Growing_index dbg t k = Inr (?t', ?i)"
    by (rule Growing_index_grow)
  have c: "?i + ?i div 2 + 32 \<le> ?c" by (rule granted_ge)
  with ge have len: "vsize (table ?t') = ?c" by (simp add: vsize_def)
  have "slot ?t' = slot t"
    by (rule ext) (simp add: slot_def vsize_def vget_def nth_append)
  moreover have "vcapacity (table t) \<le> vcapacity (table ?t')"
    by (simp add: vcapacity_def granted_cap)
  ultimately show ?thesis
    using eq len c ge False by auto
qed

lemma Growing_read_effect:
  assumes "dbg \<longrightarrow> key_valid k"
  shows "\<exists>t'. Growing_read dbg t k = Inr (t', slot t (unat (key_id k))) \<and>
           unat (key_id k) < vsize (table t') \<and>
           vsize (table t) \<le> vsize (table t') \<and>
           vcapacity (table t) \<le> vcapacity (table t') \<and>
           slot t' = slot t \<and>
           (vsize (table t') = vsize (table t)) = (unat (key_id k) < vsize (table t))"
proof -
  from Growing_index_effect [OF assms, of t] obtain t' where
    ix: "Growing_index dbg t k = Inr (t', unat (key_id k))" and
    lt: "unat (key_id k) < vsize (table t')" and
    rest: "vsize (table t) \<le> vsize (table t')" "vcapacity (table t) \<le> vcapacity (table t')"
      "slot t' = slot t"
      "(vsize (table t') = vsize (table t)) = (unat (key_id k) < vsize (table t))"
    by blast
  have "vget (table t') (unat (key_id k)) = slot t' (unat (key_id k))"
    using lt by (simp add: slot_def)
  then have "Growing_read dbg t k = Inr (t', slot t (unat (key_id k)))"
    using ix rest(3) by (simp add: Growing_read_def Growing_index_const_mut)
  with lt rest show ?thesis by blast
qed

lemma Growing_write_effect:
  assumes "dbg \<longrightarrow> key_valid k"
  shows "\<exists>t'. Growing_write dbg t k x = Inr t' \<and>
           unat (key_id k) < vsize (table t') \<and>
           vsize (table t) \<le> vsize (table t') \<and>
           vcapacity (table t) \<le> vcapacity (table t') \<and>
           slot t' = (slot t)(unat (key_id k) := x) \<and>
           (vsize (table t') = vsize (table t)) = (unat (key_id k) < vsize (table t))"
proof -
  from Growing_index_effect [OF assms, of t] obtain t1 where
    ix: "Growing_index dbg t k = Inr (t1, unat (key_id k))" and
    lt: "unat (key_id k) < vsize (table t1)" and
    rest: "vsize (table t) \<le> vsize (table t1)" "vcapacity (table t) \<le> vcapacity (table t1)"
      "slot t1 = slot t"
      "(vsize (table t1) = vsize (table t)) = (unat (key_id k) < vsize (table t))"
    by blast
  let ?t' = "t1\<lparr>table := vset (table t1) (unat (key_id k)) x\<rparr>"
  have w: "Growing_write dbg t k x = Inr ?t'"
    using ix by (simp add: Growing_write_def)
  have sz: "vsize (table ?t') = vsize (table t1)" "vcapacity (table ?t') = vcapacity (table t1)"
    by (simp_all add: vsize_def vcapacity_def vset_def)
  have "slot ?t' i = ((slot t1)(unat (key_id k) := x)) i" for i
    using lt by (simp add: slot_def vsize_def vget_def vset_def)
  then have "slot ?t' = (slot t)(unat (key_id k) := x)"
    using rest(3) by auto
  with w lt rest sz show ?thesis by auto
qed

lemma Growing_Reset_effect:
  "vsize (table (Growing_Reset t)) = vsize (table t) \<and>
   vcapacity (table (Growing_Reset t)) = vcapacity (table t) \<and>
   slot (Growing_Reset t) = (\<lambda>_. default)"
  by (auto simp: Growing_Reset_def vfill_def vsize_def vcapacity_def slot_def vget_def)

lemma step_effect:
  assumes "dbg \<longrightarrow> call_valid c"
  shows "\<exists>t'. step dbg t c = Inr t' \<and>
           vsize (table t) \<le> vsize (table t') \<and>
           vcapacity (table t) \<le> vcapacity (table t') \<and>
           (vsize (table t') = vsize (table t)) = (\<not> grows t c) \<and>
           slot t' = (case c of Read k \<Rightarrow> slot t
                      | Write k x \<Rightarrow> (slot t)(unat (key_id k) := x)
                      | ResetCall \<Rightarrow> (\<lambda>_. default)) \<and>
           list_all (\<lambda>i. i < vsize (table t')) (indexed [c])"
proof (cases c)
  case (Read k)
  with assms have v: "dbg \<longrightarrow> key_valid k" by simp
  from Growing_read_effect [OF v, of t] Read show ?thesis
    by (auto simp: not_less)
next
  case (Write k x)
  with assms have v: "dbg \<longrightarrow> key_valid k" by simp
  from Growing_write_effect [OF v, of t x] Write show ?thesis
    by (auto simp: not_less)
next
  case ResetCall
  with Growing_Reset_effect [of t] show ?thesis by simp
qed

subsection \<open>Growth on access\<close>

text \<open>
  Claim C2. On a growing sidetable, an access with a valid key whose identifier \<open>i\<close> is at
  or beyond the current size returns slot \<open>i\<close> of a table whose size and capacity are
  at least \<open>i + i div 2 + 32\<close>; the old slots are kept and every added slot holds the
  default value. An access with an identifier below the current size leaves the table
  as it is. The \<open>const\<close> accessor does the same. The sum is formed in \<open>size_t\<close>; on a
  32-bit identifier it cannot wrap.
\<close>

theorem growth_formula:
  assumes "key_valid k"
  shows "(vsize (table t) \<le> unat (key_id k) \<longrightarrow>
           (\<exists>t'. Growing_index dbg t k = Inr (t', unat (key_id k)) \<and>
              unat (key_id k) + unat (key_id k) div 2 + 32 \<le> vsize (table t') \<and>
              unat (key_id k) + unat (key_id k) div 2 + 32 \<le> vcapacity (table t') \<and>
              vsize (table t') = vcapacity (table t') \<and>
              elems (table t') =
                elems (table t) @ replicate (vsize (table t') - vsize (table t)) default)) \<and>
         (unat (key_id k) < vsize (table t) \<longrightarrow>
            Growing_index dbg t k = Inr (t, unat (key_id k))) \<and>
         Growing_index_const dbg t k = Growing_index dbg t k"
proof (intro conjI impI)
  let ?i = "unat (key_id k)"
  let ?c = "granted (table t) (?i + ?i div 2 + 32)"
  assume ge: "vsize (table t) \<le> ?i"
  have c: "?i + ?i div 2 + 32 \<le> ?c" by (rule granted_ge)
  from assms ge have "Growing_index dbg t k =
     Inr (t\<lparr>table := (table t)\<lparr>elems := elems (table t) @
               replicate (?c - vsize (table t)) default, cap := ?c\<rparr>\<rparr>, ?i)"
    by (simp add: Growing_index_grow)
  moreover have "vsize (table t) \<le> ?c" using ge c by simp
  ultimately show "\<exists>t'. Growing_index dbg t k = Inr (t', ?i) \<and>
              ?i + ?i div 2 + 32 \<le> vsize (table t') \<and>
              ?i + ?i div 2 + 32 \<le> vcapacity (table t') \<and>
              vsize (table t') = vcapacity (table t') \<and>
              elems (table t') =
                elems (table t) @ replicate (vsize (table t') - vsize (table t)) default"
    using c by (simp add: vsize_def vcapacity_def)
next
  assume "unat (key_id k) < vsize (table t)"
  with assms show "Growing_index dbg t k = Inr (t, unat (key_id k))"
    by (simp add: Growing_index_below)
next
  show "Growing_index_const dbg t k = Growing_index dbg t k"
    by (rule Growing_index_const_mut)
qed

theorem growth_formula_witness:
  "key_valid \<lparr>key_id = 100, key_valid = True\<rparr> \<and>
   vsize (table (GrowingSidetable_new \<lparr>grant = \<lambda>c n. 2 * c\<rparr> :: 32 word GrowingSidetable)) \<le> unat (100 :: 32 word) \<and>
   (\<exists>t'. Growing_index True (GrowingSidetable_new \<lparr>grant = \<lambda>c n. 2 * c\<rparr> :: 32 word GrowingSidetable)
            \<lparr>key_id = 100, key_valid = True\<rparr> = Inr (t', 100) \<and>
          182 \<le> vsize (table t') \<and> 182 \<le> vcapacity (table t') \<and>
          vsize (table t') = vcapacity (table t') \<and>
          elems (table t') = replicate (vsize (table t')) default)"
  using growth_formula [of "\<lparr>key_id = 100, key_valid = True\<rparr>"
      "GrowingSidetable_new \<lparr>grant = \<lambda>c n. 2 * c\<rparr> :: 32 word GrowingSidetable" True]
  by (simp add: GrowingSidetable_new_def ZoneVector_new_def vsize_def)

subsection \<open>Reset\<close>

text \<open>
  Claim C3. \<open>Reset\<close> on a growing sidetable overwrites every slot of \<open>[0, size())\<close> with
  the default value, leaves size and capacity as they are, and a second \<open>Reset\<close> changes
  nothing.
\<close>

theorem reset_idempotent:
  "elems (table (Growing_Reset t)) = replicate (vsize (table t)) default \<and>
   vsize (table (Growing_Reset t)) = vsize (table t) \<and>
   vcapacity (table (Growing_Reset t)) = vcapacity (table t) \<and>
   Growing_Reset (Growing_Reset t) = Growing_Reset t"
  by (simp add: Growing_Reset_def vfill_def vsize_def vcapacity_def map_replicate_const)

theorem reset_idempotent_witness:
  "elems (table (Growing_Reset (GrowingSidetable_sized 3 (7 :: 32 word) \<lparr>grant = \<lambda>c n. n\<rparr>))) = [0, 0, 0] \<and>
   Growing_Reset (Growing_Reset (GrowingSidetable_sized 3 (7 :: 32 word) \<lparr>grant = \<lambda>c n. n\<rparr>)) =
     Growing_Reset (GrowingSidetable_sized 3 (7 :: 32 word) \<lparr>grant = \<lambda>c n. n\<rparr>)"
  using reset_idempotent [of "GrowingSidetable_sized 3 (7 :: 32 word) \<lparr>grant = \<lambda>c n. n\<rparr>"]
  by (simp add: GrowingSidetable_sized_def ZoneVector_filled_def vsize_def default_word_def
      numeral_3_eq_3)

subsection \<open>The two accessors\<close>

text \<open>
  Claim C9. The \<open>const\<close> accessor of a growing sidetable has the effect of the mutable
  one: for every build, table and key both return the same slot of the same resulting
  table (or fail alike), so a read grows the table exactly as a write access does.
  The same holds for the two accessors of the node-keyed class.
\<close>

theorem const_accessor_grows:
  "Growing_index_const dbg t k = Growing_index dbg t k \<and>
   Growing_read dbg t k =
     (case Growing_index dbg t k of Inl e \<Rightarrow> Inl e | Inr (t', r) \<Rightarrow> Inr (t', vget (table t') r)) \<and>
   GrowingOpIndex_index_const dbg belongs u k = GrowingOpIndex_index dbg belongs u k"
  by (simp add: Growing_index_const_mut Growing_read_def
      GrowingOpIndex_index_const_def GrowingOpIndex_index_def)

theorem const_accessor_grows_witness:
  "Growing_index_const False (GrowingSidetable_new \<lparr>grant = \<lambda>c n. n\<rparr> :: 32 word GrowingSidetable)
     \<lparr>key_id = 2, key_valid = True\<rparr> =
   Inr (\<lparr>table = \<lparr>zone = \<lparr>grant = \<lambda>c n. n\<rparr>, elems = replicate 35 0, cap = 35\<rparr>\<rparr>, 2)"
  using const_accessor_grows [THEN conjunct1, of False "GrowingSidetable_new \<lparr>grant = \<lambda>c n. n\<rparr> :: 32 word GrowingSidetable"
      "\<lparr>key_id = 2, key_valid = True\<rparr>"]
    Growing_index_grow [of False "\<lparr>key_id = 2, key_valid = True\<rparr>"
      "GrowingSidetable_new \<lparr>grant = \<lambda>c n. n\<rparr> :: 32 word GrowingSidetable"]
  by (simp add: GrowingSidetable_new_def ZoneVector_new_def vsize_def granted_def default_word_def)

subsection \<open>Sequences of calls\<close>

lemma indexed_Cons: "indexed (c # cs) = indexed [c] @ indexed cs"
  by (cases c) simp_all

lemma run_effect:
  assumes "list_all call_valid cs"
  shows "\<exists>t'. run dbg t cs = Inr t' \<and>
           vsize (table t) \<le> vsize (table t') \<and>
           vcapacity (table t) \<le> vcapacity (table t') \<and>
           (vsize (table t') = vsize (table t)) = (\<not> grown_during dbg t cs) \<and>
           list_all (\<lambda>i. i < vsize (table t')) (indexed cs)"
  using assms
proof (induction cs arbitrary: t)
  case Nil
  then show ?case by simp
next
  case (Cons c cs)
  then have "dbg \<longrightarrow> call_valid c" and rest: "list_all call_valid cs" by simp_all
  from step_effect [OF this(1), of t] obtain t1 where
    st: "step dbg t c = Inr t1" and
    s1: "vsize (table t) \<le> vsize (table t1)" and
    c1: "vcapacity (table t) \<le> vcapacity (table t1)" and
    g1: "(vsize (table t1) = vsize (table t)) = (\<not> grows t c)" and
    i1: "list_all (\<lambda>i. i < vsize (table t1)) (indexed [c])"
    by blast
  from Cons.IH [OF rest, of t1] obtain t' where
    rn: "run dbg t1 cs = Inr t'" and
    s2: "vsize (table t1) \<le> vsize (table t')" and
    c2: "vcapacity (table t1) \<le> vcapacity (table t')" and
    g2: "(vsize (table t') = vsize (table t1)) = (\<not> grown_during dbg t1 cs)" and
    i2: "list_all (\<lambda>i. i < vsize (table t')) (indexed cs)"
    by blast
  have r: "run dbg t (c # cs) = Inr t'" using st rn by simp
  have g: "(vsize (table t') = vsize (table t)) = (\<not> grown_during dbg t (c # cs))"
    using s1 s2 g1 g2 st by auto
  have "list_all (\<lambda>i. i < vsize (table t')) (indexed [c])"
    using i1 s2 by (auto simp: list_all_iff)
  then have i: "list_all (\<lambda>i. i < vsize (table t')) (indexed (c # cs))"
    using i2 by (subst indexed_Cons) simp
  from r s1 s2 c1 c2 g i show ?case
    by (intro exI [of _ t'] conjI) simp_all
qed

lemma run_slot:
  assumes "list_all call_valid cs" and "list_all is_access cs" and "run dbg t cs = Inr t'"
  shows "slot t' i = (case last_written cs i of Some x \<Rightarrow> x | None \<Rightarrow> slot t i)"
  using assms
proof (induction cs arbitrary: t)
  case Nil
  then show ?case by simp
next
  case (Cons c cs)
  then have v: "dbg \<longrightarrow> call_valid c" and vs: "list_all call_valid cs"
    and a: "is_access c" and as: "list_all is_access cs" by simp_all
  from step_effect [OF v, of t] obtain t1 where
    st: "step dbg t c = Inr t1" and
    sl: "slot t1 = (case c of Read k \<Rightarrow> slot t
                      | Write k x \<Rightarrow> (slot t)(unat (key_id k) := x)
                      | ResetCall \<Rightarrow> (\<lambda>_. default))"
    by blast
  from Cons.prems(3) st have rn: "run dbg t1 cs = Inr t'" by simp
  from Cons.IH [OF vs as rn]
  have ih: "slot t' i = (case last_written cs i of Some x \<Rightarrow> x | None \<Rightarrow> slot t1 i)" .
  show ?case
  proof (cases c)
    case (Read k)
    with ih sl show ?thesis by (simp cong: option.case_cong)
  next
    case (Write k x)
    with ih sl show ?thesis by (simp split: option.splits)
  next
    case ResetCall
    with a show ?thesis by simp
  qed
qed

lemma slot_new: "slot (GrowingSidetable_new z) i = default"
  by (simp add: slot_def GrowingSidetable_new_def ZoneVector_new_def vsize_def)

lemma slot_sized: "slot (GrowingSidetable_sized n v z) i = (if i < n then v else default)"
  by (simp add: slot_def GrowingSidetable_sized_def ZoneVector_filled_def vsize_def vget_def)

text \<open>
  Claim C1, as amended. Take a growing sidetable as either constructor leaves it and
  run any sequence of reads and writes with valid keys. The sequence runs to its end,
  and a following read of any valid key succeeds and returns the last value the
  sequence wrote to that slot; for a slot it never wrote, the read returns the default
  value of \<open>T\<close> when the table was constructed empty, and on a table constructed with
  \<open>n\<close> slots of \<open>initial_value\<close> it returns \<open>initial_value\<close> below \<open>n\<close> and the
  default value from \<open>n\<close> on. Growth in between changes none of this.
\<close>

theorem growth_correctness:
  assumes "list_all call_valid cs" and "list_all is_access cs" and "key_valid k"
  shows "(\<exists>t t'. run dbg (GrowingSidetable_new z) cs = Inr t \<and>
            Growing_read dbg t k =
              Inr (t', case last_written cs (unat (key_id k)) of
                         Some x \<Rightarrow> x
                       | None \<Rightarrow> default)) \<and>
         (\<exists>t t'. run dbg (GrowingSidetable_sized n v z) cs = Inr t \<and>
            Growing_read dbg t k =
              Inr (t', case last_written cs (unat (key_id k)) of
                         Some x \<Rightarrow> x
                       | None \<Rightarrow> if unat (key_id k) < n then v else default))"
proof -
  have k: "dbg \<longrightarrow> key_valid k" using assms(3) by simp
  have gen: "\<exists>t t'. run dbg t0 cs = Inr t \<and>
            Growing_read dbg t k =
              Inr (t', case last_written cs (unat (key_id k)) of
                         Some x \<Rightarrow> x
                       | None \<Rightarrow> slot t0 (unat (key_id k)))"
    for t0 :: "'a GrowingSidetable"
  proof -
    from run_effect [OF assms(1), of dbg t0] obtain t where r: "run dbg t0 cs = Inr t"
      by blast
    from Growing_read_effect [OF k, of t] obtain t' where
      "Growing_read dbg t k = Inr (t', slot t (unat (key_id k)))" by blast
    with run_slot [OF assms(1,2) r, of "unat (key_id k)"] r show ?thesis by auto
  qed
  from gen [of "GrowingSidetable_new z"] gen [of "GrowingSidetable_sized n v z"]
  show ?thesis by (simp add: slot_new slot_sized cong: option.case_cong)
qed

text \<open>
  The claim as stated promises the default value of \<open>T\<close> for every slot never written.
  A table constructed with two slots of initial value 5 reads 5 at slot 0 after a
  write to slot 1.
\<close>

theorem growth_correctness_counterexample:
  "list_all call_valid [Write \<lparr>key_id = 1, key_valid = True\<rparr> (9 :: 32 word)] \<and>
   list_all is_access [Write \<lparr>key_id = 1, key_valid = True\<rparr> (9 :: 32 word)] \<and>
   last_written [Write \<lparr>key_id = 1, key_valid = True\<rparr> (9 :: 32 word)] 0 = None \<and>
   run True (GrowingSidetable_sized 2 5 doubling_zone) [Write \<lparr>key_id = 1, key_valid = True\<rparr> (9 :: 32 word)] =
     Inr \<lparr>table = \<lparr>zone = doubling_zone, elems = [5, 9], cap = 2\<rparr>\<rparr> \<and>
   Growing_read True \<lparr>table = \<lparr>zone = doubling_zone, elems = [5, 9 :: 32 word], cap = 2\<rparr>\<rparr>
       \<lparr>key_id = 0, key_valid = True\<rparr> =
     Inr (\<lparr>table = \<lparr>zone = doubling_zone, elems = [5, 9], cap = 2\<rparr>\<rparr>, 5) \<and>
   (5 :: 32 word) \<noteq> default"
proof -
  have "replicate 2 (5 :: 32 word) = [5, 5]"
    by (simp add: numeral_2_eq_2)
  then show ?thesis
    by (simp add: GrowingSidetable_sized_def ZoneVector_filled_def Growing_write_def
        Growing_read_def Growing_index_def Growing_index_const_def Let_def vsize_def vat_def
        vset_def vget_def default_word_def)
qed

theorem growth_correctness_witness:
  "list_all call_valid [Write \<lparr>key_id = 1, key_valid = True\<rparr> (9 :: 32 word)] \<and>
   list_all is_access [Write \<lparr>key_id = 1, key_valid = True\<rparr> (9 :: 32 word)] \<and>
   key_valid \<lparr>key_id = 0, key_valid = True\<rparr> \<and>
   (\<exists>t t'. run True (GrowingSidetable_sized 2 5 doubling_zone)
              [Write \<lparr>key_id = 1, key_valid = True\<rparr> (9 :: 32 word)] = Inr t \<and>
      Growing_read True t \<lparr>key_id = 0, key_valid = True\<rparr> = Inr (t', 5))"
  using growth_correctness [of "[Write \<lparr>key_id = 1, key_valid = True\<rparr> (9 :: 32 word)]"
      "\<lparr>key_id = 0, key_valid = True\<rparr>" True doubling_zone 2 5, THEN conjunct2]
  by simp

subsection \<open>Emptiness\<close>

lemma Growing_empty_size: "Growing_empty t = (vsize (table t) = 0)"
  by (simp add: Growing_empty_def vempty_def vsize_def)

lemma run_empty:
  assumes "list_all call_valid cs"
  shows "\<exists>t'. run dbg t cs = Inr t' \<and>
           Growing_empty t' = (Growing_empty t \<and> \<not> grown_during dbg t cs)"
proof -
  from run_effect [OF assms, of dbg t] obtain t' where
    r: "run dbg t cs = Inr t'" and
    s: "vsize (table t) \<le> vsize (table t')" and
    g: "(vsize (table t') = vsize (table t)) = (\<not> grown_during dbg t cs)"
    by blast
  from s g have "Growing_empty t' = (Growing_empty t \<and> \<not> grown_during dbg t cs)"
    unfolding Growing_empty_size by auto
  with r show ?thesis by blast
qed

text \<open>
  Claim C4, as amended. Run any sequence of reads, writes and resets with valid keys.
  On a growing sidetable constructed empty, \<open>empty()\<close> afterwards is true exactly if
  no call of the sequence took the growing branch of the accessor: resets alone leave
  the table empty, and after one growth the table is non-empty whatever resets follow.
  A table constructed with \<open>n\<close> slots is empty afterwards exactly if \<open>n = 0\<close> and no
  call grew it; with \<open>n > 0\<close> it is never empty, grown or not.
\<close>

theorem emptiness:
  fixes cs :: "'a::default call list"
  assumes "list_all call_valid cs"
  shows "(\<exists>t. run dbg (GrowingSidetable_new z) cs = Inr t \<and>
            Growing_empty t = (\<not> grown_during dbg (GrowingSidetable_new z) cs)) \<and>
         (\<exists>t. run dbg (GrowingSidetable_sized n v z) cs = Inr t \<and>
            Growing_empty t =
              (n = 0 \<and> \<not> grown_during dbg (GrowingSidetable_sized n v z) cs))"
proof -
  have "Growing_empty (GrowingSidetable_new z :: 'a GrowingSidetable)"
    by (simp add: Growing_empty_def vempty_def GrowingSidetable_new_def ZoneVector_new_def)
  moreover have "Growing_empty (GrowingSidetable_sized n v z) = (n = 0)"
    by (simp add: Growing_empty_def vempty_def GrowingSidetable_sized_def ZoneVector_filled_def)
  ultimately show ?thesis
    using run_empty [OF assms, of dbg "GrowingSidetable_new z"]
      run_empty [OF assms, of dbg "GrowingSidetable_sized n v z"]
    by simp
qed

text \<open>
  The claim as stated has every table that was reset but never grown report empty. A
  table constructed with one slot, then reset, was never grown and is not empty.
\<close>

theorem emptiness_counterexample:
  "list_all call_valid [ResetCall :: 32 word call] \<and>
   run True (GrowingSidetable_sized 1 (7 :: 32 word) doubling_zone) [ResetCall] =
     Inr \<lparr>table = \<lparr>zone = doubling_zone, elems = [0], cap = 1\<rparr>\<rparr> \<and>
   \<not> grown_during True (GrowingSidetable_sized 1 (7 :: 32 word) doubling_zone) [ResetCall] \<and>
   \<not> Growing_empty \<lparr>table = \<lparr>zone = doubling_zone, elems = [0 :: 32 word], cap = 1\<rparr>\<rparr>"
  by (simp add: GrowingSidetable_sized_def ZoneVector_filled_def Growing_Reset_def vfill_def
      Growing_empty_def vempty_def default_word_def)

theorem emptiness_witness:
  "list_all call_valid [ResetCall, Read \<lparr>key_id = 3, key_valid = True\<rparr>, ResetCall :: 32 word call] \<and>
   (\<exists>t. run False (GrowingSidetable_new doubling_zone)
           [ResetCall, Read \<lparr>key_id = 3, key_valid = True\<rparr>, ResetCall :: 32 word call] = Inr t \<and>
        \<not> Growing_empty t) \<and>
   (\<exists>t. run False (GrowingSidetable_new doubling_zone) [ResetCall :: 32 word call] = Inr t \<and>
        Growing_empty t)"
proof -
  have new: "vsize (table (GrowingSidetable_new doubling_zone :: 32 word GrowingSidetable)) = 0"
    by (simp add: GrowingSidetable_new_def ZoneVector_new_def vsize_def)
  have reset: "vsize (table (Growing_Reset (GrowingSidetable_new doubling_zone
      :: 32 word GrowingSidetable))) = 0"
    by (simp add: Growing_Reset_effect new)
  show ?thesis
    using emptiness [of "[ResetCall, Read \<lparr>key_id = 3, key_valid = True\<rparr>, ResetCall :: 32 word call]"
        False doubling_zone, THEN conjunct1]
      emptiness [of "[ResetCall :: 32 word call]" False doubling_zone, THEN conjunct1]
    by (simp add: new reset)
qed

subsection \<open>Size and capacity never decrease\<close>

text \<open>
  Claim C8. After any sequence of reads, writes and resets with valid keys, run from any
  growing sidetable, the size is at least (indeed greater than) the identifier of every
  key the sequence indexed, and neither the size nor the capacity is smaller than before
  the sequence; a single access or reset is the sequence of length one.
\<close>

theorem size_monotone:
  assumes "list_all call_valid cs"
  shows "\<exists>t'. run dbg t cs = Inr t' \<and>
           list_all (\<lambda>i. i \<le> vsize (table t')) (indexed cs) \<and>
           list_all (\<lambda>i. i < vsize (table t')) (indexed cs) \<and>
           vsize (table t) \<le> vsize (table t') \<and>
           vcapacity (table t) \<le> vcapacity (table t')"
proof -
  from run_effect [OF assms, of dbg t] obtain t' where
    r: "run dbg t cs = Inr t'" and
    s: "vsize (table t) \<le> vsize (table t')" and
    c: "vcapacity (table t) \<le> vcapacity (table t')" and
    i: "list_all (\<lambda>i. i < vsize (table t')) (indexed cs)"
    by blast
  from i have "list_all (\<lambda>i. i \<le> vsize (table t')) (indexed cs)"
    by (auto simp: list_all_iff less_imp_le)
  with r s c i show ?thesis by blast
qed

theorem size_monotone_witness:
  "list_all call_valid [Write \<lparr>key_id = 100, key_valid = True\<rparr> (7 :: 32 word), ResetCall,
      Read \<lparr>key_id = 50, key_valid = True\<rparr>] \<and>
   (\<exists>t'. run True (GrowingSidetable_new doubling_zone)
            [Write \<lparr>key_id = 100, key_valid = True\<rparr> (7 :: 32 word), ResetCall,
             Read \<lparr>key_id = 50, key_valid = True\<rparr>] = Inr t' \<and>
      100 \<le> vsize (table t') \<and> 50 \<le> vsize (table t'))"
  using size_monotone [of "[Write \<lparr>key_id = 100, key_valid = True\<rparr> (7 :: 32 word), ResetCall,
      Read \<lparr>key_id = 50, key_valid = True\<rparr>]" True "GrowingSidetable_new doubling_zone"]
  by auto

subsection \<open>Swapping the storage\<close>

lemma Growing_index_table_only:
  assumes "table t = table u"
  shows "map_sum id (\<lambda>(t', r). (table t', r)) (Growing_index dbg t k) =
         map_sum id (\<lambda>(u', r). (table u', r)) (Growing_index dbg u k)"
  using assms
  by (simp add: Growing_index_def NextSize_def Let_def vat_def split: sum.splits)

lemma Growing_read_table_only:
  assumes "table t = table u"
  shows "map_sum id (\<lambda>(t', x). (table t', x)) (Growing_read dbg t k) =
         map_sum id (\<lambda>(u', x). (table u', x)) (Growing_read dbg u k)"
proof -
  from Growing_index_table_only [OF assms, of dbg k]
  show ?thesis
    unfolding Growing_read_def Growing_index_const_mut
    by (auto split: sum.splits)
qed

text \<open>
  Claim C5, as amended. For any two node-keyed sidetables \<open>a\<close> and \<open>b\<close> of the same kind
  and value type, whatever their sizes, \<open>SwapData\<close> exchanges the whole storage:
  afterwards \<open>a\<close> holds the vector \<open>b\<close> held and the reverse, so sizes and capacities
  are exchanged and every key maps in \<open>a\<close> to what it mapped to in \<open>b\<close> and the
  reverse; a second swap restores both tables. A read of \<open>a\<close> after the swap returns
  what \<open>b\<close> held at that key, and the reverse, for every key that the accessor of the
  table read lets through: every valid key in a release build, and in a debug build
  every valid key that belongs to the graph that table was constructed with. In a debug
  build a key that does not belong to that graph fails the check of the table read,
  whatever the other table held for it. The same holds for the fixed node-keyed tables
  \<open>c\<close> and \<open>d\<close>, for keys inside the vector received.
\<close>

theorem swap_exchanges:
  fixes a b :: "('a::default, 'g) GrowingOpIndexSidetable"
    and c d :: "('a, 'g) FixedOpIndexSidetable"
    and belongs :: "'g \<Rightarrow> OpIndex \<Rightarrow> bool"
    and dbg :: bool and k :: OpIndex
  shows
  "table (fst (GrowingOpIndex_SwapData a b)) = table b \<and>
   table (snd (GrowingOpIndex_SwapData a b)) = table a \<and>
   vsize (table (fst (GrowingOpIndex_SwapData a b))) = vsize (table b) \<and>
   vsize (table (snd (GrowingOpIndex_SwapData a b))) = vsize (table a) \<and>
   vcapacity (table (fst (GrowingOpIndex_SwapData a b))) = vcapacity (table b) \<and>
   vcapacity (table (snd (GrowingOpIndex_SwapData a b))) = vcapacity (table a) \<and>
   slot (fst (GrowingOpIndex_SwapData a b)) = slot b \<and>
   slot (snd (GrowingOpIndex_SwapData a b)) = slot a \<and>
   map_sum id snd (Growing_read dbg (fst (GrowingOpIndex_SwapData a b)) k) =
     map_sum id snd (Growing_read dbg b k) \<and>
   map_sum id snd (Growing_read dbg (snd (GrowingOpIndex_SwapData a b)) k) =
     map_sum id snd (Growing_read dbg a k) \<and>
   map_sum id snd (GrowingOpIndex_read dbg belongs (fst (GrowingOpIndex_SwapData a b)) k) =
     (if dbg \<and> \<not> belongs (graph a) k then Inl DCheckFailed
      else map_sum id snd (Growing_read dbg b k)) \<and>
   map_sum id snd (GrowingOpIndex_read dbg belongs (snd (GrowingOpIndex_SwapData a b)) k) =
     (if dbg \<and> \<not> belongs (graph b) k then Inl DCheckFailed
      else map_sum id snd (Growing_read dbg a k)) \<and>
   case_prod GrowingOpIndex_SwapData (GrowingOpIndex_SwapData a b) = (a, b) \<and>
   fixed_table (fst (FixedOpIndex_SwapData c d)) = fixed_table d \<and>
   fixed_table (snd (FixedOpIndex_SwapData c d)) = fixed_table c \<and>
   Fixed_read dbg (fst (FixedOpIndex_SwapData c d)) k = Fixed_read dbg d k \<and>
   Fixed_read dbg (snd (FixedOpIndex_SwapData c d)) k = Fixed_read dbg c k \<and>
   FixedOpIndex_read dbg belongs (fst (FixedOpIndex_SwapData c d)) k =
     (if dbg \<and> \<not> belongs (fixed_graph c) k then Inl DCheckFailed else Fixed_read dbg d k) \<and>
   FixedOpIndex_read dbg belongs (snd (FixedOpIndex_SwapData c d)) k =
     (if dbg \<and> \<not> belongs (fixed_graph d) k then Inl DCheckFailed else Fixed_read dbg c k) \<and>
   case_prod FixedOpIndex_SwapData (FixedOpIndex_SwapData c d) = (c, d) \<and>
   (key_valid k \<and> (dbg \<longrightarrow> belongs (graph a) k) \<longrightarrow>
      map_sum id snd (GrowingOpIndex_read dbg belongs (fst (GrowingOpIndex_SwapData a b)) k) =
        Inr (slot b (unat (key_id k)))) \<and>
   (key_valid k \<and> (dbg \<longrightarrow> belongs (graph b) k) \<longrightarrow>
      map_sum id snd (GrowingOpIndex_read dbg belongs (snd (GrowingOpIndex_SwapData a b)) k) =
        Inr (slot a (unat (key_id k)))) \<and>
   (unat (key_id k) < vsize (fixed_table d) \<and> (dbg \<longrightarrow> belongs (fixed_graph c) k) \<longrightarrow>
      FixedOpIndex_read dbg belongs (fst (FixedOpIndex_SwapData c d)) k =
        Inr (vget (fixed_table d) (unat (key_id k)))) \<and>
   (unat (key_id k) < vsize (fixed_table c) \<and> (dbg \<longrightarrow> belongs (fixed_graph d) k) \<longrightarrow>
      FixedOpIndex_read dbg belongs (snd (FixedOpIndex_SwapData c d)) k =
        Inr (vget (fixed_table c) (unat (key_id k))))"
proof -
  let ?a' = "fst (GrowingOpIndex_SwapData a b)"
  let ?b' = "snd (GrowingOpIndex_SwapData a b)"
  have ta: "table ?a' = table b" and tb: "table ?b' = table a"
    and ga: "graph ?a' = graph a" and gb: "graph ?b' = graph b"
    by (simp_all add: GrowingOpIndex_SwapData_def)
  have val: "map_sum id snd (Growing_read dbg t k) = map_sum id snd (Growing_read dbg u k)"
    if "table t = table u"
    for t u :: "('a, 'g) GrowingOpIndexSidetable"
    using Growing_read_table_only [OF that, of dbg k]
    by (auto simp: map_sum_def split: sum.splits)
  have ra: "map_sum id snd (Growing_read dbg ?a' k) = map_sum id snd (Growing_read dbg b k)"
    using ta by (rule val)
  have rb: "map_sum id snd (Growing_read dbg ?b' k) = map_sum id snd (Growing_read dbg a k)"
    using tb by (rule val)
  have node: "map_sum id snd (GrowingOpIndex_read dbg belongs t k) =
      (if dbg \<and> \<not> belongs (graph t) k then Inl DCheckFailed
       else map_sum id snd (Growing_read dbg t k))"
    for t :: "('a, 'g) GrowingOpIndexSidetable"
    by (simp add: GrowingOpIndex_read_def GrowingOpIndex_index_const_def Growing_read_def)
  have sa: "slot ?a' = slot b" and sb: "slot ?b' = slot a"
    by (rule ext, simp add: slot_def ta tb)+
  have twice: "case_prod GrowingOpIndex_SwapData (GrowingOpIndex_SwapData a b) = (a, b)"
    by (simp add: GrowingOpIndex_SwapData_def)
  have fixed: "fixed_table (fst (FixedOpIndex_SwapData c d)) = fixed_table d"
    "fixed_table (snd (FixedOpIndex_SwapData c d)) = fixed_table c"
    "fixed_graph (fst (FixedOpIndex_SwapData c d)) = fixed_graph c"
    "fixed_graph (snd (FixedOpIndex_SwapData c d)) = fixed_graph d"
    "case_prod FixedOpIndex_SwapData (FixedOpIndex_SwapData c d) = (c, d)"
    by (simp_all add: FixedOpIndex_SwapData_def)
  have fr: "Fixed_read dbg t k = Fixed_read dbg u k" if "fixed_table t = fixed_table u"
    for t u :: "('a, 'g) FixedOpIndexSidetable"
    using that by (simp add: Fixed_read_def Fixed_index_const_def cong: sum.case_cong)
  have fnode: "FixedOpIndex_read dbg belongs t k =
      (if dbg \<and> \<not> belongs (fixed_graph t) k then Inl DCheckFailed else Fixed_read dbg t k)"
    for t :: "('a, 'g) FixedOpIndexSidetable"
    by (simp add: FixedOpIndex_read_def FixedOpIndex_index_const_def Fixed_read_def)
  have rs: "map_sum id snd (Growing_read build t k) = Inr (slot t (unat (key_id k)))"
    if "key_valid k" for t :: "('a, 'g) GrowingOpIndexSidetable" and build
    using Growing_read_effect [of build k t] that by auto
  have frs: "Fixed_read build t k = Inr (vget (fixed_table t) (unat (key_id k)))"
    if "unat (key_id k) < vsize (fixed_table t)"
    for t :: "('a, 'g) FixedOpIndexSidetable" and build
    using that by (simp add: Fixed_read_def Fixed_index_const_def vat_def vsize_def)
  show ?thesis
    unfolding node fnode ga gb fixed(3,4) ra rb
      fr [OF fixed(1)] fr [OF fixed(2)] ta tb sa sb twice fixed(1,2,5)
    by (auto simp: rs frs)
qed

text \<open>
  The claim as stated has a read of any key from \<open>a\<close> return what \<open>b\<close> held. In a debug
  build, key 0 belongs to the graph of \<open>table_b\<close> and reads 8 there; after the swap
  \<open>table_a\<close> holds that storage, and the same read on it fails the check against the
  graph of \<open>table_a\<close>.
\<close>

theorem swap_exchanges_counterexample:
  "owns (graph table_b) \<lparr>key_id = 0, key_valid = True\<rparr> \<and>
   map_sum id snd (GrowingOpIndex_read True owns table_b \<lparr>key_id = 0, key_valid = True\<rparr>) =
     Inr 8 \<and>
   table (fst (GrowingOpIndex_SwapData table_a table_b)) = table table_b \<and>
   map_sum id snd (GrowingOpIndex_read True owns (fst (GrowingOpIndex_SwapData table_a table_b))
     \<lparr>key_id = 0, key_valid = True\<rparr>) = Inl DCheckFailed"
  by (simp add: table_a_def table_b_def owns_def GrowingOpIndex_SwapData_def
      GrowingOpIndex_read_def GrowingOpIndex_index_const_def Growing_index_const_def
      Let_def vsize_def vat_def vget_def)

theorem swap_exchanges_witness:
  "key_valid \<lparr>key_id = 0, key_valid = True\<rparr> \<and>
   owns (graph table_b) \<lparr>key_id = 0, key_valid = True\<rparr> \<and>
   unat (0 :: 32 word) < vsize (fixed_table table_c) \<and>
   owns (fixed_graph table_d) \<lparr>key_id = 0, key_valid = True\<rparr> \<and>
   map_sum id snd (GrowingOpIndex_read True owns (snd (GrowingOpIndex_SwapData table_a table_b))
      \<lparr>key_id = 0, key_valid = True\<rparr>) = Inr 3 \<and>
   FixedOpIndex_read True owns (snd (FixedOpIndex_SwapData table_c table_d))
      \<lparr>key_id = 0, key_valid = True\<rparr> = Inr 5 \<and>
   vsize (table (fst (GrowingOpIndex_SwapData table_a table_b))) = 1 \<and>
   vsize (table (snd (GrowingOpIndex_SwapData table_a table_b))) = 2"
proof -
  have g: "graph table_a = 1" "graph table_b = 2" "fixed_graph table_c = 1"
    "fixed_graph table_d = 2"
    by (simp_all add: table_a_def table_b_def table_c_def table_d_def)
  have s: "vsize (table table_a) = 2" "vsize (table table_b) = 1"
    "vsize (fixed_table table_c) = 3" "vsize (fixed_table table_d) = 1"
    by (simp_all add: table_a_def table_b_def table_c_def table_d_def vsize_def)
  have v: "slot table_a 0 = 3" "vget (fixed_table table_c) 0 = 5"
    by (simp_all add: slot_def table_a_def table_c_def vsize_def vget_def)
  from swap_exchanges [where a = table_a and b = table_b and c = table_c and d = table_d
      and belongs = owns and dbg = True and k = "\<lparr>key_id = 0, key_valid = True\<rparr>"]
  show ?thesis by (auto simp: g s v owns_def)
qed

subsection \<open>The fixed table\<close>

lemma Fixed_index_in_range:
  assumes "unat (key_id k) < vsize (fixed_table t)"
  shows "Fixed_index dbg t k = Inr (unat (key_id k))"
    and "Fixed_index_const dbg t k = Inr (unat (key_id k))"
  using assms by (simp_all add: Fixed_index_def Fixed_index_const_def vat_def vsize_def)

lemma Fixed_index_out_of_range:
  assumes "vsize (fixed_table t) \<le> unat (key_id k)"
  shows "Fixed_index dbg t k = Inl (if dbg then DCheckFailed else UndefinedBehaviour)"
    and "Fixed_index_const dbg t k = Inl (if dbg then DCheckFailed else UndefinedBehaviour)"
  using assms by (simp_all add: Fixed_index_def Fixed_index_const_def vat_def vsize_def)

lemma Fixed_write_effect:
  assumes "unat (key_id k) < vsize (fixed_table t)"
  shows "Fixed_write dbg t k x =
           Inr (t\<lparr>fixed_table := (fixed_table t)\<lparr>elems :=
                  (elems (fixed_table t))[unat (key_id k) := x]\<rparr>\<rparr>)"
  using assms by (simp add: Fixed_write_def Fixed_index_in_range vset_def)

lemma Fixed_run_effect:
  assumes "list_all (\<lambda>i. i < vsize (fixed_table t)) (written_ids ws)"
  shows "\<exists>t'. Fixed_run dbg t ws = Inr t' \<and>
           vsize (fixed_table t') = vsize (fixed_table t) \<and>
           vcapacity (fixed_table t') = vcapacity (fixed_table t) \<and>
           (\<forall>j. j \<notin> set (written_ids ws) \<longrightarrow>
                vget (fixed_table t') j = vget (fixed_table t) j)"
  using assms
proof (induction ws arbitrary: t)
  case Nil
  then show ?case by simp
next
  case (Cons w ws)
  obtain k x where w: "w = (k, x)" by (cases w)
  let ?t1 = "t\<lparr>fixed_table := (fixed_table t)\<lparr>elems :=
                  (elems (fixed_table t))[unat (key_id k) := x]\<rparr>\<rparr>"
  from Cons.prems w have k: "unat (key_id k) < vsize (fixed_table t)"
    and rest: "list_all (\<lambda>i. i < vsize (fixed_table t)) (written_ids ws)"
    by (simp_all add: written_ids_def)
  have st: "Fixed_write dbg t k x = Inr ?t1"
    using k by (rule Fixed_write_effect)
  have sz: "vsize (fixed_table ?t1) = vsize (fixed_table t)"
    "vcapacity (fixed_table ?t1) = vcapacity (fixed_table t)"
    by (simp_all add: vsize_def vcapacity_def)
  from rest sz have "list_all (\<lambda>i. i < vsize (fixed_table ?t1)) (written_ids ws)"
    by simp
  from Cons.IH [OF this] obtain t' where
    r: "Fixed_run dbg ?t1 ws = Inr t'" and
    s: "vsize (fixed_table t') = vsize (fixed_table ?t1)"
       "vcapacity (fixed_table t') = vcapacity (fixed_table ?t1)" and
    g: "\<forall>j. j \<notin> set (written_ids ws) \<longrightarrow> vget (fixed_table t') j = vget (fixed_table ?t1) j"
    by blast
  have "Fixed_run dbg t (w # ws) = Inr t'"
    using st r w by simp
  moreover have "\<forall>j. j \<notin> set (written_ids (w # ws)) \<longrightarrow>
      vget (fixed_table t') j = vget (fixed_table t) j"
    using g w by (auto simp: written_ids_def vget_def)
  ultimately show ?case
    using s sz by (intro exI [of _ t']) simp
qed

text \<open>
  Claim C6. Take a fixed sidetable constructed with capacity \<open>n\<close>, by either
  constructor, and run any sequence of writes to identifiers below \<open>n\<close>. Every write
  succeeds and the table still has size and capacity \<open>n\<close>: no access grows it. An
  access with an identifier below \<open>n\<close> then succeeds in both builds and yields that
  slot, which still holds the value it was initialised with if the sequence never wrote
  it: the default value of \<open>T\<close> after the constructor without a value, the
  \<open>default_value\<close> after the constructor with one. An access with an identifier at or
  beyond \<open>n\<close> is stopped by the \<open>DCHECK\<close> in a debug build and is not checked in a
  release build, where it is an access outside the vector.
\<close>

theorem fixed_bounds:
  fixes ws :: "(Key \<times> 'a::default) list"
  assumes "list_all (\<lambda>i. i < n) (written_ids ws)"
  shows "(\<exists>t. Fixed_run dbg (FixedSidetable_new n z) ws = Inr t \<and>
            vsize (fixed_table t) = n \<and> vcapacity (fixed_table t) = n \<and>
            (unat (key_id k) < n \<longrightarrow>
               Fixed_index dbg t k = Inr (unat (key_id k)) \<and>
               Fixed_index_const dbg t k = Inr (unat (key_id k)) \<and>
               (unat (key_id k) \<notin> set (written_ids ws) \<longrightarrow>
                  Fixed_read dbg t k = Inr default)) \<and>
            (n \<le> unat (key_id k) \<longrightarrow>
               Fixed_index dbg t k = Inl (if dbg then DCheckFailed else UndefinedBehaviour) \<and>
               Fixed_index_const dbg t k =
                 Inl (if dbg then DCheckFailed else UndefinedBehaviour))) \<and>
         (\<exists>t. Fixed_run dbg (FixedSidetable_filled n default_value z) ws = Inr t \<and>
            vsize (fixed_table t) = n \<and> vcapacity (fixed_table t) = n \<and>
            (unat (key_id k) < n \<longrightarrow>
               Fixed_index dbg t k = Inr (unat (key_id k)) \<and>
               Fixed_index_const dbg t k = Inr (unat (key_id k)) \<and>
               (unat (key_id k) \<notin> set (written_ids ws) \<longrightarrow>
                  Fixed_read dbg t k = Inr default_value)) \<and>
            (n \<le> unat (key_id k) \<longrightarrow>
               Fixed_index dbg t k = Inl (if dbg then DCheckFailed else UndefinedBehaviour) \<and>
               Fixed_index_const dbg t k =
                 Inl (if dbg then DCheckFailed else UndefinedBehaviour)))"
proof -
  have gen: "\<exists>t. Fixed_run dbg t0 ws = Inr t \<and>
            vsize (fixed_table t) = n \<and> vcapacity (fixed_table t) = n \<and>
            (unat (key_id k) < n \<longrightarrow>
               Fixed_index dbg t k = Inr (unat (key_id k)) \<and>
               Fixed_index_const dbg t k = Inr (unat (key_id k)) \<and>
               (unat (key_id k) \<notin> set (written_ids ws) \<longrightarrow>
                  Fixed_read dbg t k = Inr d)) \<and>
            (n \<le> unat (key_id k) \<longrightarrow>
               Fixed_index dbg t k = Inl (if dbg then DCheckFailed else UndefinedBehaviour) \<and>
               Fixed_index_const dbg t k =
                 Inl (if dbg then DCheckFailed else UndefinedBehaviour))"
    if t0: "fixed_table t0 = \<lparr>zone = z, elems = replicate n d, cap = n\<rparr>"
    for t0 :: "'a FixedSidetable" and d
  proof -
    have n: "vsize (fixed_table t0) = n" "vcapacity (fixed_table t0) = n"
      by (simp_all add: t0 vsize_def vcapacity_def)
    with assms have "list_all (\<lambda>i. i < vsize (fixed_table t0)) (written_ids ws)"
      by simp
    from Fixed_run_effect [OF this, of dbg] obtain t where
      r: "Fixed_run dbg t0 ws = Inr t" and
      s: "vsize (fixed_table t) = n" "vcapacity (fixed_table t) = n" and
      g: "\<forall>j. j \<notin> set (written_ids ws) \<longrightarrow> vget (fixed_table t) j = vget (fixed_table t0) j"
      using n by auto
    have rd: "Fixed_read dbg t k = Inr d"
      if "unat (key_id k) < n" "unat (key_id k) \<notin> set (written_ids ws)"
    proof -
      from that g have "vget (fixed_table t) (unat (key_id k)) = d"
        by (simp add: t0 vget_def)
      with that(1) s(1) show ?thesis
        by (simp add: Fixed_read_def Fixed_index_in_range)
    qed
    show ?thesis
      using r s rd by (auto simp: Fixed_index_in_range Fixed_index_out_of_range)
  qed
  have "fixed_table (FixedSidetable_new n z :: 'a FixedSidetable) =
      \<lparr>zone = z, elems = replicate n default, cap = n\<rparr>"
    by (simp add: FixedSidetable_new_def ZoneVector_sized_def)
  moreover have "fixed_table (FixedSidetable_filled n default_value z) =
      \<lparr>zone = z, elems = replicate n default_value, cap = n\<rparr>"
    by (simp add: FixedSidetable_filled_def ZoneVector_filled_def)
  ultimately show ?thesis
    using gen by blast
qed

theorem fixed_bounds_witness:
  "list_all (\<lambda>i. i < (3 :: nat)) (written_ids [(\<lparr>key_id = 1, key_valid = True\<rparr>, 9 :: 32 word)]) \<and>
   (\<exists>t. Fixed_run True (FixedSidetable_new 3 doubling_zone)
           [(\<lparr>key_id = 1, key_valid = True\<rparr>, 9 :: 32 word)] = Inr t \<and>
      vsize (fixed_table t) = 3 \<and>
      Fixed_index True t \<lparr>key_id = 2, key_valid = True\<rparr> = Inr 2 \<and>
      Fixed_read True t \<lparr>key_id = 2, key_valid = True\<rparr> = Inr 0) \<and>
   (\<exists>t. Fixed_run True (FixedSidetable_new 3 doubling_zone)
           [(\<lparr>key_id = 1, key_valid = True\<rparr>, 9 :: 32 word)] = Inr t \<and>
      vsize (fixed_table t) = 3 \<and>
      Fixed_index True t \<lparr>key_id = 3, key_valid = True\<rparr> = Inl DCheckFailed)"
  using
    fixed_bounds [where ws = "[(\<lparr>key_id = 1, key_valid = True\<rparr>, 9 :: 32 word)]" and n = 3
      and dbg = True and z = doubling_zone and k = "\<lparr>key_id = 2, key_valid = True\<rparr>"
      and default_value = 0, THEN conjunct1]
    fixed_bounds [where ws = "[(\<lparr>key_id = 1, key_valid = True\<rparr>, 9 :: 32 word)]" and n = 3
      and dbg = True and z = doubling_zone and k = "\<lparr>key_id = 3, key_valid = True\<rparr>"
      and default_value = 0, THEN conjunct1]
  by (auto simp: written_ids_def default_word_def)

subsection \<open>The graph binding of the node-keyed tables\<close>

lemma Growing_index_succeeds:
  assumes "key_valid k"
  shows "\<exists>t'. Growing_index dbg t k = Inr (t', unat (key_id k))"
  using Growing_index_effect [of dbg k t] assms by blast

text \<open>
  Claim C7. In a debug build both accessors of both node-keyed classes fail their
  \<open>DCHECK\<close> when the key does not belong to the graph stored in the table, and behave
  as the inherited accessor when it does; in a release build they are the inherited
  accessor whatever the graph. The stored graph is the one given to the constructor,
  and an access leaves it as it is, so every later access is checked against it too.
  A block-keyed table is the generic container: an access with a valid key to a growing
  one, and with an identifier below the capacity to a fixed one, succeeds in both
  builds, no graph being involved.
\<close>

theorem graph_binding:
  fixes t :: "('a::default, 'g) GrowingOpIndexSidetable"
    and u :: "('b, 'g) FixedOpIndexSidetable"
    and belongs :: "'g \<Rightarrow> OpIndex \<Rightarrow> bool"
  shows
  "(\<not> belongs (graph t) k \<longrightarrow>
      GrowingOpIndex_index True belongs t k = Inl DCheckFailed \<and>
      GrowingOpIndex_index_const True belongs t k = Inl DCheckFailed) \<and>
   (\<not> belongs (fixed_graph u) k \<longrightarrow>
      FixedOpIndex_index True belongs u k = Inl DCheckFailed \<and>
      FixedOpIndex_index_const True belongs u k = Inl DCheckFailed) \<and>
   (belongs (graph t) k \<longrightarrow>
      GrowingOpIndex_index True belongs t k = Growing_index True t k \<and>
      GrowingOpIndex_index_const True belongs t k = Growing_index_const True t k) \<and>
   (belongs (fixed_graph u) k \<longrightarrow>
      FixedOpIndex_index True belongs u k = Fixed_index True u k \<and>
      FixedOpIndex_index_const True belongs u k = Fixed_index_const True u k) \<and>
   GrowingOpIndex_index False belongs t k = Growing_index False t k \<and>
   GrowingOpIndex_index_const False belongs t k = Growing_index_const False t k \<and>
   FixedOpIndex_index False belongs u k = Fixed_index False u k \<and>
   FixedOpIndex_index_const False belongs u k = Fixed_index_const False u k \<and>
   graph (GrowingOpIndexSidetable_new z g :: ('a, 'g) GrowingOpIndexSidetable) = g \<and>
   graph (GrowingOpIndexSidetable_sized n v z g) = g \<and>
   fixed_graph (FixedOpIndexSidetable_new n z g :: ('a, 'g) FixedOpIndexSidetable) = g \<and>
   fixed_graph (FixedOpIndexSidetable_filled n v z g) = g \<and>
   (case GrowingOpIndex_index dbg belongs t k of
      Inl e \<Rightarrow> True
    | Inr (t', r) \<Rightarrow> graph t' = graph t) \<and>
   (key_valid k \<longrightarrow>
      (\<exists>t'. Growing_index dbg (GrowingBlockSidetable_new z :: 'a GrowingBlockSidetable) k =
         Inr (t', unat (key_id k))) \<and>
      (\<exists>t'. Growing_index dbg (GrowingBlockSidetable_sized n v z) k =
         Inr (t', unat (key_id k)))) \<and>
   (unat (key_id k) < n \<longrightarrow>
      Fixed_index dbg (FixedBlockSidetable_new n z :: 'a FixedBlockSidetable) k =
        Inr (unat (key_id k)) \<and>
      Fixed_index dbg (FixedBlockSidetable_filled n v z) k = Inr (unat (key_id k)))"
proof -
  have keep: "(case GrowingOpIndex_index dbg belongs t k of
      Inl e \<Rightarrow> True
    | Inr (t', r) \<Rightarrow> graph t' = graph t)"
  proof (cases "GrowingOpIndex_index dbg belongs t k")
    case (Inl e)
    then show ?thesis by simp
  next
    case (Inr p)
    obtain t' r where p: "p = (t', r)" by (cases p)
    with Inr have "Growing_index dbg t k = Inr (t', r)"
      by (simp add: GrowingOpIndex_index_def split: if_splits)
    then have "graph t' = graph t"
      by (auto simp: Growing_index_def Let_def split: if_splits sum.splits)
    with Inr p show ?thesis by simp
  qed
  have fsize: "vsize (fixed_table (FixedBlockSidetable_new n z :: 'a FixedBlockSidetable)) = n"
    "vsize (fixed_table (FixedBlockSidetable_filled n v z)) = n"
    by (simp_all add: FixedBlockSidetable_new_def FixedBlockSidetable_filled_def
        FixedSidetable_new_def FixedSidetable_filled_def ZoneVector_sized_def
        ZoneVector_filled_def vsize_def)
  show ?thesis
    using keep
    by (simp add: GrowingOpIndex_index_def GrowingOpIndex_index_const_def
        FixedOpIndex_index_def FixedOpIndex_index_const_def
        GrowingOpIndexSidetable_new_def GrowingOpIndexSidetable_sized_def
        FixedOpIndexSidetable_new_def FixedOpIndexSidetable_filled_def
        Growing_index_succeeds Fixed_index_in_range fsize)
qed

text \<open>Membership of a key in a graph, for the examples: graph \<open>g\<close> owns the even
  identifiers if \<open>g = 2\<close> and the odd ones otherwise.\<close>

theorem graph_binding_witness:
  "\<not> owns (graph table_a) \<lparr>key_id = 0, key_valid = True\<rparr> \<and>
   GrowingOpIndex_index True owns table_a \<lparr>key_id = 0, key_valid = True\<rparr> = Inl DCheckFailed \<and>
   GrowingOpIndex_index False owns table_a \<lparr>key_id = 0, key_valid = True\<rparr> = Inr (table_a, 0) \<and>
   owns (graph table_a) \<lparr>key_id = 1, key_valid = True\<rparr> \<and>
   GrowingOpIndex_index True owns table_a \<lparr>key_id = 1, key_valid = True\<rparr> = Inr (table_a, 1) \<and>
   \<not> owns (fixed_graph table_c) \<lparr>key_id = 0, key_valid = True\<rparr> \<and>
   FixedOpIndex_index True owns table_c \<lparr>key_id = 0, key_valid = True\<rparr> = Inl DCheckFailed"
proof -
  have a: "Growing_index dbg table_a \<lparr>key_id = 0, key_valid = True\<rparr> = Inr (table_a, 0)"
    "Growing_index dbg table_a \<lparr>key_id = 1, key_valid = True\<rparr> = Inr (table_a, 1)" for dbg
    by (simp_all add: Growing_index_below table_a_def vsize_def)
  have g: "graph table_a = 1" "fixed_graph table_c = 1"
    by (simp_all add: table_a_def table_c_def)
  from graph_binding [where t = table_a and u = table_c and belongs = owns
      and k = "\<lparr>key_id = 0, key_valid = True\<rparr>" and dbg = True and n = 0
      and z = doubling_zone and v = 0 and g = 0]
    graph_binding [where t = table_a and u = table_c and belongs = owns
      and k = "\<lparr>key_id = 1, key_valid = True\<rparr>" and dbg = True and n = 0
      and z = doubling_zone and v = 0 and g = 0]
  show ?thesis
    by (auto simp: a g owns_def)
qed

text \<open>
  Claim C10. \<open>SwapData\<close> exchanges the storage only: each table keeps its \<open>graph_\<close>, and
  after the swap both accessors of each table check the key, in a debug build, against
  the graph of that table, not against the graph of the table whose data it received.
\<close>

theorem swap_keeps_graph:
  fixes a b :: "('a::default, 'g) GrowingOpIndexSidetable"
    and c d :: "('b, 'g) FixedOpIndexSidetable"
    and belongs :: "'g \<Rightarrow> OpIndex \<Rightarrow> bool"
  shows
  "graph (fst (GrowingOpIndex_SwapData a b)) = graph a \<and>
   graph (snd (GrowingOpIndex_SwapData a b)) = graph b \<and>
   fixed_graph (fst (FixedOpIndex_SwapData c d)) = fixed_graph c \<and>
   fixed_graph (snd (FixedOpIndex_SwapData c d)) = fixed_graph d \<and>
   GrowingOpIndex_index dbg belongs (fst (GrowingOpIndex_SwapData a b)) k =
     (if dbg \<and> \<not> belongs (graph a) k then Inl DCheckFailed
      else Growing_index dbg (fst (GrowingOpIndex_SwapData a b)) k) \<and>
   GrowingOpIndex_index dbg belongs (snd (GrowingOpIndex_SwapData a b)) k =
     (if dbg \<and> \<not> belongs (graph b) k then Inl DCheckFailed
      else Growing_index dbg (snd (GrowingOpIndex_SwapData a b)) k) \<and>
   GrowingOpIndex_index_const dbg belongs (fst (GrowingOpIndex_SwapData a b)) k =
     (if dbg \<and> \<not> belongs (graph a) k then Inl DCheckFailed
      else Growing_index_const dbg (fst (GrowingOpIndex_SwapData a b)) k) \<and>
   GrowingOpIndex_index_const dbg belongs (snd (GrowingOpIndex_SwapData a b)) k =
     (if dbg \<and> \<not> belongs (graph b) k then Inl DCheckFailed
      else Growing_index_const dbg (snd (GrowingOpIndex_SwapData a b)) k) \<and>
   FixedOpIndex_index dbg belongs (fst (FixedOpIndex_SwapData c d)) k =
     (if dbg \<and> \<not> belongs (fixed_graph c) k then Inl DCheckFailed
      else Fixed_index dbg (fst (FixedOpIndex_SwapData c d)) k) \<and>
   FixedOpIndex_index dbg belongs (snd (FixedOpIndex_SwapData c d)) k =
     (if dbg \<and> \<not> belongs (fixed_graph d) k then Inl DCheckFailed
      else Fixed_index dbg (snd (FixedOpIndex_SwapData c d)) k) \<and>
   FixedOpIndex_index_const dbg belongs (fst (FixedOpIndex_SwapData c d)) k =
     (if dbg \<and> \<not> belongs (fixed_graph c) k then Inl DCheckFailed
      else Fixed_index_const dbg (fst (FixedOpIndex_SwapData c d)) k) \<and>
   FixedOpIndex_index_const dbg belongs (snd (FixedOpIndex_SwapData c d)) k =
     (if dbg \<and> \<not> belongs (fixed_graph d) k then Inl DCheckFailed
      else Fixed_index_const dbg (snd (FixedOpIndex_SwapData c d)) k)"
  by (simp add: GrowingOpIndex_SwapData_def FixedOpIndex_SwapData_def
      GrowingOpIndex_index_def GrowingOpIndex_index_const_def
      FixedOpIndex_index_def FixedOpIndex_index_const_def)

theorem swap_keeps_graph_witness:
  "graph (fst (GrowingOpIndex_SwapData table_a table_b)) = 1 \<and>
   table (fst (GrowingOpIndex_SwapData table_a table_b)) = table table_b \<and>
   owns (graph table_b) \<lparr>key_id = 0, key_valid = True\<rparr> \<and>
   GrowingOpIndex_index True owns table_b \<lparr>key_id = 0, key_valid = True\<rparr> = Inr (table_b, 0) \<and>
   GrowingOpIndex_index True owns (fst (GrowingOpIndex_SwapData table_a table_b))
     \<lparr>key_id = 0, key_valid = True\<rparr> = Inl DCheckFailed \<and>
   FixedOpIndex_index True owns (fst (FixedOpIndex_SwapData table_c table_d))
     \<lparr>key_id = 0, key_valid = True\<rparr> = Inl DCheckFailed"
proof -
  have b: "GrowingOpIndex_index True owns table_b \<lparr>key_id = 0, key_valid = True\<rparr> =
      Inr (table_b, 0)"
    by (simp add: GrowingOpIndex_index_def Growing_index_below table_b_def vsize_def owns_def)
  have g: "graph table_a = 1" "graph table_b = 2" "fixed_graph table_c = 1"
    by (simp_all add: table_a_def table_b_def table_c_def)
  have t: "table (fst (GrowingOpIndex_SwapData table_a table_b)) = table table_b"
    by (simp add: GrowingOpIndex_SwapData_def)
  from swap_keeps_graph [where a = table_a and b = table_b and c = table_c and d = table_d
      and belongs = owns and dbg = True and k = "\<lparr>key_id = 0, key_valid = True\<rparr>"]
  show ?thesis
    by (simp add: b g t owns_def)
qed

end
